theory Spec2Isabelle
  imports Complex_Main "HOL-Library.Multiset"
begin

section \<open>Python values and exceptions\<close>

text \<open>
  The functions of the repository check their arguments dynamically
  (\<^verbatim>\<open>isinstance\<close>), so an argument is a tagged Python value. A Python
  \<^verbatim>\<open>float\<close> is modelled by its real value: rounding, infinities and NaN are not
  part of the model. \<^verbatim>\<open>bool\<close> is a subclass of \<^verbatim>\<open>int\<close> in Python, so a
  boolean passes \<^verbatim>\<open>isinstance(x, (int, float))\<close> with value 0 or 1.
\<close>

datatype pyval =
    PyNone
  | PyBool bool
  | PyInt int
  | PyFloat real
  | PyStr string
  | PyDict "(string \<times> pyval) list"

text \<open>Every \<^verbatim>\<open>raise\<close> of the modelled code is a value of this type, with its message.\<close>

datatype py_error =
    ValueError string
  | FileNotFoundError string
  | UnboundLocalError string
  | IndexError string

fun is_int_or_float :: "pyval \<Rightarrow> bool" where
  "is_int_or_float (PyBool b) = True"
| "is_int_or_float (PyInt i) = True"
| "is_int_or_float (PyFloat r) = True"
| "is_int_or_float v = False"

fun num_val :: "pyval \<Rightarrow> real" where
  "num_val (PyBool b) = (if b then 1 else 0)"
| "num_val (PyInt i) = real_of_int i"
| "num_val (PyFloat r) = r"
| "num_val v = 0"

fun is_nonempty_str :: "pyval \<Rightarrow> bool" where
  "is_nonempty_str (PyStr s) = (s \<noteq> [])"
| "is_nonempty_str v = False"

fun is_dict :: "pyval \<Rightarrow> bool" where
  "is_dict (PyDict d) = True"
| "is_dict v = False"

section \<open>Case-parameter deriver (\<^verbatim>\<open>oneDflame_setup.update_case_parameters\<close>)\<close>

text \<open>The dictionary \<^verbatim>\<open>case_params\<close> that the function returns, key by key.\<close>

record case_params =
  mechanism_path :: pyval
  gas_state :: pyval
  flame_speed :: pyval
  flame_thickness :: pyval
  domain_width :: real
  domain_length :: real
  half_domain_length :: real
  target_time_step :: real
  chemical_time_scale :: real
  sample_time_steps :: real
  estimated_time_step :: real
  estimated_sim_time :: real
  estimated_write_time_step :: real

text \<open>
  The four argument checks come first and in the source's order; each raises
  \<^verbatim>\<open>ValueError\<close> with its own message. The arithmetic follows the source line by
  line: \<^verbatim>\<open>flame_thickness * 5\<close>, \<^verbatim>\<open>domain_width * 10\<close>,
  \<^verbatim>\<open>domain_length / 2\<close>, \<^verbatim>\<open>flame_thickness / flame_speed\<close>,
  \<^verbatim>\<open>chemical_time_scale / 10\<close>, \<^verbatim>\<open>estimated_time_step * sample_time_steps\<close>.
  The \<^verbatim>\<open>try\<close> block only prints and re-raises; the division cannot raise since
  \<^verbatim>\<open>flame_speed > 0\<close> has been checked.
\<close>

definition update_case_parameters ::
  "pyval \<Rightarrow> pyval \<Rightarrow> pyval \<Rightarrow> pyval \<Rightarrow> py_error + case_params" where
  "update_case_parameters mp gs fs ft =
    (if \<not> is_nonempty_str mp then
       Inl (ValueError ''Invalid mechanism_path: must be a non-empty string'')
     else if \<not> is_dict gs then
       Inl (ValueError ''Invalid gas_state: must be a dictionary'')
     else if \<not> is_int_or_float fs \<or> num_val fs \<le> 0 then
       Inl (ValueError ''Invalid flame_speed: must be a positive number'')
     else if \<not> is_int_or_float ft \<or> num_val ft \<le> 0 then
       Inl (ValueError ''Invalid flame_thickness: must be a positive number'')
     else
       (let dw = num_val ft * 5;
            dl = dw * 10;
            hdl = dl / 2;
            tts = 1 / 1000000;
            cts = num_val ft / num_val fs;
            sts = 100;
            ets = cts / 10;
            est = ets * sts;
            ewts = ets
        in Inr \<lparr> mechanism_path = mp, gas_state = gs, flame_speed = fs,
                  flame_thickness = ft, domain_width = dw, domain_length = dl,
                  half_domain_length = hdl, target_time_step = tts,
                  chemical_time_scale = cts, sample_time_steps = sts,
                  estimated_time_step = ets, estimated_sim_time = est,
                  estimated_write_time_step = ewts \<rparr>))"

section \<open>Strings and numeric literals\<close>

text \<open>
  Python's string operations used by the sampler: substring test (\<^verbatim>\<open>in\<close>),
  \<^verbatim>\<open>str.strip()\<close> and \<^verbatim>\<open>str.split()\<close> on whitespace. The whitespace
  characters are those of \<^verbatim>\<open>str.isspace\<close> below code point 256.
\<close>

definition is_space :: "char \<Rightarrow> bool" where
  "is_space c = (let n = (of_char c :: nat)
     in (9 \<le> n \<and> n \<le> 13) \<or> (28 \<le> n \<and> n \<le> 32) \<or> n = 133 \<or> n = 160)"

definition is_digit :: "char \<Rightarrow> bool" where
  "is_digit c = (48 \<le> (of_char c :: nat) \<and> (of_char c :: nat) \<le> 57)"

definition digit_val :: "char \<Rightarrow> int" where
  "digit_val c = of_char c - 48"

definition digits_val :: "string \<Rightarrow> int" where
  "digits_val ds = foldl (\<lambda>a c. 10 * a + digit_val c) 0 ds"

fun starts_with :: "string \<Rightarrow> string \<Rightarrow> bool" where
  "starts_with [] s = True"
| "starts_with (p # ps) [] = False"
| "starts_with (p # ps) (c # cs) = (p = c \<and> starts_with ps cs)"

fun str_contains :: "string \<Rightarrow> string \<Rightarrow> bool" where
  "str_contains sub [] = (sub = [])"
| "str_contains sub (c # cs) = (starts_with sub (c # cs) \<or> str_contains sub cs)"

definition str_strip :: "string \<Rightarrow> string" where
  "str_strip s = rev (dropWhile is_space (rev (dropWhile is_space s)))"

fun split_acc :: "string \<Rightarrow> string \<Rightarrow> string list" where
  "split_acc acc [] = (if acc = [] then [] else [rev acc])"
| "split_acc acc (c # cs) =
     (if is_space c then (if acc = [] then split_acc [] cs else rev acc # split_acc [] cs)
      else split_acc (c # acc) cs)"

definition str_split :: "string \<Rightarrow> string list" where
  "str_split s = split_acc [] s"

text \<open>
  Decimal literals: an optional sign, then digits with an optional fraction or a
  fraction alone, then an optional exponent, and nothing else. This is the language of
  the pattern \<^verbatim>\<open>[-+]?(\d+(\.\d*)?|\.\d+)([eE][-+]?\d+)?\<close> of
  \<^verbatim>\<open>is_numeric_string\<close>. The lexer returns sign, integer digits, fraction digits
  and exponent.
\<close>

definition split_sign :: "string \<Rightarrow> bool \<times> string" where
  "split_sign s = (case s of [] \<Rightarrow> (False, [])
     | c # r \<Rightarrow> if c = CHR ''-'' then (True, r)
               else if c = CHR ''+'' then (False, r) else (False, s))"

definition lex_exponent :: "string \<Rightarrow> int option" where
  "lex_exponent s = (case s of [] \<Rightarrow> Some 0
     | c # r \<Rightarrow>
        if c = CHR ''e'' \<or> c = CHR ''E'' then
          (let (neg, ds) = split_sign r
           in if ds \<noteq> [] \<and> list_all is_digit ds
              then Some (if neg then - digits_val ds else digits_val ds)
              else None)
        else None)"

definition lex_decimal :: "string \<Rightarrow> (bool \<times> string \<times> string \<times> int) option" where
  "lex_decimal s =
     (let (neg, s1) = split_sign s;
          ip = takeWhile is_digit s1;
          r1 = dropWhile is_digit s1
      in case r1 of
           [] \<Rightarrow> if ip = [] then None else Some (neg, ip, [], 0)
         | c # r \<Rightarrow>
             if c = CHR ''.'' then
               (let fp = takeWhile is_digit r; r2 = dropWhile is_digit r
                in if ip = [] \<and> fp = [] then None
                   else map_option (\<lambda>e. (neg, ip, fp, e)) (lex_exponent r2))
             else if ip = [] then None
             else map_option (\<lambda>e. (neg, ip, [], e)) (lex_exponent r1))"

definition decimal_value :: "bool \<times> string \<times> string \<times> int \<Rightarrow> real" where
  "decimal_value d = (case d of (neg, ip, fp, e) \<Rightarrow>
     (let m = real_of_int (digits_val (ip @ fp)) / 10 ^ length fp;
          v = (if 0 \<le> e then m * 10 ^ nat e else m / 10 ^ nat (- e))
      in if neg then - v else v))"

text \<open>
  \<^verbatim>\<open>utils.is_numeric_string\<close>: \<^verbatim>\<open>re.match\<close> of the anchored pattern. In Python
  \<^verbatim>\<open>$\<close> also matches just before a newline that ends the string.
\<close>

definition chop_newline :: "string \<Rightarrow> string" where
  "chop_newline s = (if s \<noteq> [] \<and> last s = CHR 0x0A then butlast s else s)"

definition is_numeric_string :: "string \<Rightarrow> bool" where
  "is_numeric_string input_string = (lex_decimal (chop_newline input_string) \<noteq> None)"

text \<open>
  Python's \<^verbatim>\<open>float(s)\<close> on a string: surrounding whitespace is ignored and a
  decimal literal gives its value (as a real, without rounding). The other spellings
  that \<^verbatim>\<open>float\<close> accepts (infinities, NaN, digit groups with underscores) have no
  real value and are outside the model: they are reported like a string that does not
  parse, and no theorem below relies on that.
\<close>

definition py_float :: "string \<Rightarrow> py_error + real" where
  "py_float s = (case lex_decimal (str_strip s) of
       None \<Rightarrow> Inl (ValueError ''could not convert string to float'')
     | Some d \<Rightarrow> Inr (decimal_value d))"

section \<open>Time directories (\<^verbatim>\<open>OneDSampler._collect_data\<close>, directory scan)\<close>

text \<open>
  The working directory as \<^verbatim>\<open>Path('.').iterdir()\<close> lists it: names with what
  they are, in the order of the listing. A directory carries its files, each as the
  list of lines that \<^verbatim>\<open>readlines()\<close> returns.
\<close>

datatype dir_entry = RegularFile | Directory "(string \<times> string list) list"

type_synonym workdir = "(string \<times> dir_entry) list"

fun is_dir :: "dir_entry \<Rightarrow> bool" where
  "is_dir (Directory fs) = True"
| "is_dir RegularFile = False"

fun dir_files :: "dir_entry \<Rightarrow> (string \<times> string list) list" where
  "dir_files (Directory fs) = fs"
| "dir_files RegularFile = []"

text \<open>
  \<^verbatim>\<open>sorted([d for d in Path('.').iterdir() if d.is_dir() and
  is_numeric_string(d.name)], key=lambda d: float(d.name))[1:]\<close>. The key function
  raises if a name does not parse; \<^verbatim>\<open>sorted\<close> is stable, as \<^const>\<open>sort_key\<close> is,
  and \<^verbatim>\<open>[1:]\<close> drops the first element of the sorted list (nothing if it is empty).
\<close>

definition numeric_dirs :: "workdir \<Rightarrow> workdir" where
  "numeric_dirs wd = filter (\<lambda>d. is_dir (snd d) \<and> is_numeric_string (fst d)) wd"

definition float_key :: "string \<times> dir_entry \<Rightarrow> real" where
  "float_key d = (case py_float (fst d) of Inr r \<Rightarrow> r | Inl e \<Rightarrow> 0)"

definition time_dirs :: "workdir \<Rightarrow> py_error + workdir" where
  "time_dirs wd =
     (let ds = numeric_dirs wd
      in case filter (\<lambda>d. isl (py_float (fst d))) ds of
           bad # _ \<Rightarrow> Inl (ValueError ''could not convert string to float'')
         | [] \<Rightarrow> Inr (tl (sort_key float_key ds)))"

section \<open>Field files (\<^verbatim>\<open>OneDSampler._collect_data\<close>, per-field parse)\<close>

text \<open>
  The local variables of \<^verbatim>\<open>_collect_data\<close> that live across loop iterations:
  \<^verbatim>\<open>data_shape\<close> is set to 0 once, before the loop over time directories;
  \<^verbatim>\<open>start\<close> and \<^verbatim>\<open>end\<close> are unbound until a scan assigns them and keep
  their last value afterwards, also across files.
\<close>

record locals =
  data_shape :: nat
  start :: "nat option"
  end_line :: "nat option"

text \<open>
  \<^verbatim>\<open>float(line.strip().split()[-1][:-1])\<close>: the last whitespace-separated token
  of the line without its last character.
\<close>

definition uniform_value_of :: "string \<Rightarrow> py_error + real" where
  "uniform_value_of line = (case str_split (str_strip line) of
       [] \<Rightarrow> Inl (IndexError ''list index out of range'')
     | t # ts \<Rightarrow> py_float (butlast (last (t # ts))))"

text \<open>
  The scan \<^verbatim>\<open>for i, line in enumerate(lines)\<close>, with \<^verbatim>\<open>sample_started\<close> as a
  flag. It returns the uniform value if the loop left through the first
  \<^verbatim>\<open>break\<close> (\<^verbatim>\<open>uniform_bool\<close>), and \<^verbatim>\<open>start\<close> and \<^verbatim>\<open>end\<close> as they
  are when the loop is left.
\<close>

fun scan_lines ::
  "nat \<Rightarrow> string list \<Rightarrow> bool \<Rightarrow> nat option \<Rightarrow> nat option
    \<Rightarrow> py_error + (real option \<times> nat option \<times> nat option)" where
  "scan_lines i [] sample_started st en = Inr (None, st, en)"
| "scan_lines i (line # rest) sample_started st en =
     (let started = (sample_started \<or> str_contains ''internalField'' line)
      in if str_contains '' uniform'' line \<and> started then
           (case uniform_value_of line of
              Inl e \<Rightarrow> Inl e
            | Inr uniform_value \<Rightarrow> Inr (Some uniform_value, st, en))
         else
           (let st' = (if str_contains ''('' line \<and> started then Some (i + 1) else st)
            in if str_contains '')'' line \<and> started then Inr (None, st', Some i)
               else scan_lines (i + 1) rest started st' en))"

text \<open>
  \<^verbatim>\<open>np.loadtxt(lines).reshape(-1, 1)\<close> on a list of lines: text from
  \<^verbatim>\<open>#\<close> on is a comment, blank lines are skipped, the values of a line are
  separated by whitespace, every line must have as many values as the first, and the
  values come out in reading order. The message strings of library exceptions are
  labels here, not the library's own texts.
\<close>

fun parse_floats :: "string list \<Rightarrow> py_error + real list" where
  "parse_floats [] = Inr []"
| "parse_floats (t # ts) =
     (case py_float t of
        Inl e \<Rightarrow> Inl e
      | Inr v \<Rightarrow> (case parse_floats ts of Inl e \<Rightarrow> Inl e | Inr vs \<Rightarrow> Inr (v # vs)))"

fun loadtxt_rows :: "string list \<Rightarrow> py_error + real list list" where
  "loadtxt_rows [] = Inr []"
| "loadtxt_rows (l # ls) =
     (let toks = str_split (takeWhile (\<lambda>c. c \<noteq> CHR ''#'') l)
      in if toks = [] then loadtxt_rows ls
         else (case parse_floats toks of
                 Inl e \<Rightarrow> Inl e
               | Inr r \<Rightarrow> (case loadtxt_rows ls of
                             Inl e \<Rightarrow> Inl e
                           | Inr rs \<Rightarrow> Inr (r # rs))))"

definition loadtxt :: "string list \<Rightarrow> py_error + real list" where
  "loadtxt ls = (case loadtxt_rows ls of
       Inl e \<Rightarrow> Inl e
     | Inr rs \<Rightarrow>
         if list_all (\<lambda>r. length r = length (hd rs)) rs then Inr (concat rs)
         else Inl (ValueError ''the number of columns changed''))"

text \<open>
  What one field file holds for one time step: a single scalar for every point, or
  the values point by point.
\<close>

datatype field_sample = Uniform real | NonUniform "real list"

text \<open>
  The body of \<^verbatim>\<open>for var in sample_dims\<close> once the file is read, in two steps.
  First the scan and, when the scan did not find a uniform value,
  \<^verbatim>\<open>np.loadtxt(lines[start:end])\<close>: reading \<^verbatim>\<open>start\<close> or \<^verbatim>\<open>end\<close>
  while it is unbound raises.
\<close>

definition read_field ::
  "string list \<Rightarrow> nat option \<times> nat option
    \<Rightarrow> py_error + (field_sample \<times> (nat option \<times> nat option))" where
  "read_field lines se =
     (case scan_lines 0 lines False (fst se) (snd se) of
        Inl e \<Rightarrow> Inl e
      | Inr (uv, st, en) \<Rightarrow>
          (case uv of
             Some uniform_value \<Rightarrow> Inr (Uniform uniform_value, (st, en))
           | None \<Rightarrow>
               (case st of
                  None \<Rightarrow> Inl (UnboundLocalError ''start'')
                | Some a \<Rightarrow>
                    (case en of
                       None \<Rightarrow> Inl (UnboundLocalError ''end'')
                     | Some b \<Rightarrow>
                         (case loadtxt (take (b - a) (drop a lines)) of
                            Inl e \<Rightarrow> Inl e
                          | Inr vs \<Rightarrow> Inr (NonUniform vs, (st, en)))))))"

text \<open>
  Then the column array: \<^verbatim>\<open>np.ones((data_shape, 1)) * uniform_value\<close> for a
  uniform field, with \<^verbatim>\<open>data_shape\<close> as it is at that moment, or the values read,
  which also set \<^verbatim>\<open>data_shape\<close>. A column array of shape (n, 1) is the list of
  its n values.
\<close>

definition parse_field :: "string list \<Rightarrow> locals \<Rightarrow> py_error + (real list \<times> locals)" where
  "parse_field lines loc =
     (case read_field lines (start loc, end_line loc) of
        Inl e \<Rightarrow> Inl e
      | Inr (smp, (st, en)) \<Rightarrow>
          (case smp of
             Uniform uniform_value \<Rightarrow>
               Inr (replicate (data_shape loc) uniform_value,
                    \<lparr>data_shape = data_shape loc, start = st, end_line = en\<rparr>)
           | NonUniform dim_array \<Rightarrow>
               Inr (dim_array,
                    \<lparr>data_shape = length dim_array, start = st, end_line = en\<rparr>)))"

section \<open>Time-series assembly (\<^verbatim>\<open>OneDSampler._collect_data\<close>)\<close>

text \<open>
  \<^verbatim>\<open>sample_dims = ['T', 'p'] + Solution(...).species_names\<close>; the species names
  come from the chemistry library and are a parameter here.
\<close>

definition sample_dims :: "string list \<Rightarrow> string list" where
  "sample_dims species_names = [''T'', ''p''] @ species_names"

text \<open>
  The inner loop: \<^verbatim>\<open>open(time_dir / var)\<close> fails if the file is absent; the
  column arrays are collected in the order of \<^verbatim>\<open>sample_dims\<close>.
\<close>

fun collect_vars ::
  "(string \<times> string list) list \<Rightarrow> string list \<Rightarrow> locals
    \<Rightarrow> py_error + (real list list \<times> locals)" where
  "collect_vars files [] loc = Inr ([], loc)"
| "collect_vars files (var # vars) loc =
     (case map_of files var of
        None \<Rightarrow> Inl (FileNotFoundError var)
      | Some lines \<Rightarrow>
          (case parse_field lines loc of
             Inl e \<Rightarrow> Inl e
           | Inr (dim_array, loc') \<Rightarrow>
               (case collect_vars files vars loc' of
                  Inl e \<Rightarrow> Inl e
                | Inr (time_arrays, loc'') \<Rightarrow> Inr (dim_array # time_arrays, loc''))))"

text \<open>
  \<^verbatim>\<open>np.concatenate(time_arrays, axis=1)\<close> of column arrays: they must all have
  the same number of rows; the result is given by its rows. A 2-D array is the list
  of its rows throughout.
\<close>

definition concatenate_axis1 :: "real list list \<Rightarrow> py_error + real list list" where
  "concatenate_axis1 arrays = (case arrays of
       [] \<Rightarrow> Inl (ValueError ''need at least one array to concatenate'')
     | a # as \<Rightarrow>
         if list_all (\<lambda>b. length b = length a) as
         then Inr (map (\<lambda>i. map (\<lambda>c. c ! i) arrays) [0..<length a])
         else Inl (ValueError ''array dimensions except for the concatenation axis must match''))"

definition collect_time_dir ::
  "(string \<times> string list) list \<Rightarrow> string list \<Rightarrow> locals
    \<Rightarrow> py_error + (real list list \<times> locals)" where
  "collect_time_dir files vars loc =
     (case collect_vars files vars loc of
        Inl e \<Rightarrow> Inl e
      | Inr (time_arrays, loc') \<Rightarrow>
          (case concatenate_axis1 time_arrays of
             Inl e \<Rightarrow> Inl e
           | Inr time_array \<Rightarrow> Inr (time_array, loc')))"

fun collect_time_dirs ::
  "workdir \<Rightarrow> string list \<Rightarrow> locals \<Rightarrow> py_error + real list list list" where
  "collect_time_dirs [] vars loc = Inr []"
| "collect_time_dirs (time_dir # tds) vars loc =
     (case collect_time_dir (dir_files (snd time_dir)) vars loc of
        Inl e \<Rightarrow> Inl e
      | Inr (time_array, loc') \<Rightarrow>
          (case collect_time_dirs tds vars loc' of
             Inl e \<Rightarrow> Inl e
           | Inr data_collector \<Rightarrow> Inr (time_array # data_collector)))"

text \<open>
  \<^verbatim>\<open>np.concatenate(data_collector, axis=0)\<close>: the rows of the blocks one after
  the other. Every block has \<^verbatim>\<open>len(sample_dims)\<close> columns, so only the empty list
  makes it raise.
\<close>

definition concatenate_axis0 :: "real list list list \<Rightarrow> py_error + real list list" where
  "concatenate_axis0 blocks =
     (if blocks = [] then Inl (ValueError ''need at least one array to concatenate'')
      else Inr (concat blocks))"

definition collect_data :: "string list \<Rightarrow> workdir \<Rightarrow> py_error + real list list" where
  "collect_data species_names wd =
     (case time_dirs wd of
        Inl e \<Rightarrow> Inl e
      | Inr tds \<Rightarrow>
          (case collect_time_dirs tds (sample_dims species_names)
                  \<lparr>data_shape = 0, start = None, end_line = None\<rparr> of
             Inl e \<Rightarrow> Inl e
           | Inr data_collector \<Rightarrow> concatenate_axis0 data_collector))"

text \<open>
  For stating properties of one time step: the samples that the inner loop reads, field
  by field in the order of the field names, and the column arrays it builds from them
  starting with a given \<^verbatim>\<open>data_shape\<close>.
\<close>

fun read_fields ::
  "(string \<times> string list) list \<Rightarrow> string list \<Rightarrow> nat option \<times> nat option
    \<Rightarrow> py_error + (field_sample list \<times> (nat option \<times> nat option))" where
  "read_fields files [] se = Inr ([], se)"
| "read_fields files (var # vars) se =
     (case map_of files var of
        None \<Rightarrow> Inl (FileNotFoundError var)
      | Some lines \<Rightarrow>
          (case read_field lines se of
             Inl e \<Rightarrow> Inl e
           | Inr (smp, se') \<Rightarrow>
               (case read_fields files vars se' of
                  Inl e \<Rightarrow> Inl e
                | Inr (smps, se'') \<Rightarrow> Inr (smp # smps, se''))))"

fun dim_arrays :: "nat \<Rightarrow> field_sample list \<Rightarrow> real list list" where
  "dim_arrays n [] = []"
| "dim_arrays n (Uniform v # smps) = replicate n v # dim_arrays n smps"
| "dim_arrays n (NonUniform vs # smps) = vs # dim_arrays (length vs) smps"

fun final_shape :: "nat \<Rightarrow> field_sample list \<Rightarrow> nat" where
  "final_shape n [] = n"
| "final_shape n (Uniform v # smps) = final_shape n smps"
| "final_shape n (NonUniform vs # smps) = final_shape (length vs) smps"

fun sample_at :: "field_sample \<Rightarrow> nat \<Rightarrow> real" where
  "sample_at (Uniform v) i = v"
| "sample_at (NonUniform vs) i = vs ! i"

section \<open>The sampler object (\<^verbatim>\<open>OneDSampler\<close>)\<close>

text \<open>
  Of the sampler's attributes only \<^verbatim>\<open>fuel\<close> and \<^verbatim>\<open>data\<close> matter to its
  accessors; \<^verbatim>\<open>__init__\<close> sets \<^verbatim>\<open>data\<close> to \<^verbatim>\<open>None\<close>.
\<close>

record sampler =
  fuel :: string
  sampler_data :: "real list list option"

definition init_sampler :: "string \<Rightarrow> sampler" where
  "init_sampler f = \<lparr>fuel = f, sampler_data = None\<rparr>"

text \<open>
  \<^verbatim>\<open>sample()\<close> runs \<^verbatim>\<open>_run_case_setup()\<close>, then \<^verbatim>\<open>_collect_data()\<close>.
  The first drives the chemistry library and the external solver; its outcome, an
  exception or the species names with the working directory it leaves, is a parameter.
  An exception leaves the sampler as it was and reaches the caller.
\<close>

definition sample ::
  "sampler \<Rightarrow> py_error + (string list \<times> workdir) \<Rightarrow> sampler \<times> py_error option" where
  "sample s run_case_setup =
     (case run_case_setup of
        Inl e \<Rightarrow> (s, Some e)
      | Inr (species_names, wd) \<Rightarrow>
          (case collect_data species_names wd of
             Inl e \<Rightarrow> (s, Some e)
           | Inr d \<Rightarrow> (s\<lparr>sampler_data := Some d\<rparr>, None)))"

definition get_data :: "sampler \<Rightarrow> py_error + real list list" where
  "get_data s = (case sampler_data s of
       None \<Rightarrow> Inl (ValueError ''Data not sampled yet. Call sample() first.'')
     | Some d \<Rightarrow> Inr d)"

text \<open>
  \<^verbatim>\<open>save\<close> checks \<^verbatim>\<open>data\<close> first and then writes the array under
  \<^verbatim>\<open>os.path.join(output_dir, f"{fuel}-1Dflame.npy")\<close>. The argument
  \<^verbatim>\<open>output_dir\<close> is the directory after the default has been filled in, and the
  persisted arrays are a map from paths to arrays.
\<close>

definition path_join :: "string \<Rightarrow> string \<Rightarrow> string" where
  "path_join a b =
     (if a = [] then b else if last a = CHR ''/'' then a @ b else a @ ''/'' @ b)"

definition save ::
  "sampler \<Rightarrow> string \<Rightarrow> (string \<rightharpoonup> real list list)
    \<Rightarrow> py_error + (string \<rightharpoonup> real list list)" where
  "save s output_dir store = (case sampler_data s of
       None \<Rightarrow> Inl (ValueError ''No data to save. Run `sample()` first.'')
     | Some d \<Rightarrow> Inr (store(path_join output_dir (fuel s @ ''-1Dflame.npy'') \<mapsto> d)))"

section \<open>Dataset container (\<^verbatim>\<open>dataset_tools.container.Container\<close>)\<close>

text \<open>
  The tensor \<^verbatim>\<open>data\<close> of shape (n, m) as the list of its rows, and the index
  array \<^verbatim>\<open>dataIdx\<close>, which \<^verbatim>\<open>__init__\<close> sets to 0, ..., n - 1.
\<close>

record container =
  data :: "real list list"
  dataIdx :: "nat list"















section \<open>Properties of the case-parameter deriver\<close>



text \<open>
  C6. Whenever the flame speed or the flame thickness is non-positive, the deriver raises
  \<^verbatim>\<open>ValueError\<close> (the source's exception for an invalid parameter) and returns no
  parameter bundle, whatever the other arguments are. (A value that is not a number has
  \<^const>\<open>num_val\<close> 0 and is rejected as well.)
\<close>

theorem update_case_parameters_rejects_nonpositive:
  assumes "num_val fs \<le> 0 \<or> num_val ft \<le> 0"
  shows "\<exists>msg. update_case_parameters mp gs fs ft = Inl (ValueError msg)"
  using assms by (auto simp add: update_case_parameters_def)

theorem update_case_parameters_rejects_nonpositive_witness:
  "\<exists>msg. update_case_parameters (PyStr ''mechanisms/h2.yaml'') (PyDict []) (PyFloat 0) (PyFloat 1)
      = Inl (ValueError msg)"
  using update_case_parameters_rejects_nonpositive
    [of "PyFloat 0" "PyFloat 1" "PyStr ''mechanisms/h2.yaml''" "PyDict []"]
  by simp

section \<open>Properties of the dataset container\<close>









section \<open>Properties of the time-series assembly\<close>

text \<open>
  The inner loop reads the samples and builds the column arrays in one pass; the
  lemmas below separate the two, so that a time step can be described by the samples
  its files hold.
\<close>

lemma collect_vars_read_fields:
  "collect_vars files vars loc =
     (case read_fields files vars (start loc, end_line loc) of
        Inl e \<Rightarrow> Inl e
      | Inr (smps, se) \<Rightarrow>
          Inr (dim_arrays (data_shape loc) smps,
               \<lparr>data_shape = final_shape (data_shape loc) smps,
                start = fst se, end_line = snd se\<rparr>))"
proof (induction vars arbitrary: loc)
  case Nil
  show ?case by simp
next
  case (Cons var vars)
  show ?case
  proof (cases "map_of files var")
    case None
    then show ?thesis by simp
  next
    case (Some lines)
    show ?thesis
    proof (cases "read_field lines (start loc, end_line loc)")
      case (Inl e)
      then show ?thesis using Some by (simp add: parse_field_def)
    next
      case (Inr r)
      obtain smp st en where r: "r = (smp, (st, en))" by (metis surj_pair)
      show ?thesis
      proof (cases smp)
        case (Uniform v)
        then show ?thesis
          using Some Inr r Cons.IH [of "\<lparr>data_shape = data_shape loc, start = st, end_line = en\<rparr>"]
          by (simp add: parse_field_def split: sum.splits prod.splits)
      next
        case (NonUniform vs)
        then show ?thesis
          using Some Inr r Cons.IH [of "\<lparr>data_shape = length vs, start = st, end_line = en\<rparr>"]
          by (simp add: parse_field_def split: sum.splits prod.splits)
      qed
    qed
  qed
qed

lemma read_fields_length:
  "read_fields files vars se = Inr (smps, se') \<Longrightarrow> length smps = length vars"
  by (induction vars arbitrary: se smps)
     (auto split: option.splits sum.splits prod.splits)

lemma read_fields_nth:
  "read_fields files vars se = Inr (smps, se') \<Longrightarrow> j < length vars \<Longrightarrow>
     \<exists>lines se1 se2. map_of files (vars ! j) = Some lines
        \<and> read_field lines se1 = Inr (smps ! j, se2)"
proof (induction vars arbitrary: se smps j)
  case Nil
  then show ?case by simp
next
  case (Cons var vars)
  from Cons.prems(1) obtain lines smp se1 rest where
    f: "map_of files var = Some lines" and
    r: "read_field lines se = Inr (smp, se1)" and
    t: "read_fields files vars se1 = Inr (rest, se')" and
    s: "smps = smp # rest"
    by (auto split: option.splits sum.splits prod.splits)
  show ?case
  proof (cases j)
    case 0
    then have a: "(var # vars) ! j = var" and b: "smps ! j = smp"
      using s by simp_all
    show ?thesis unfolding a b using f r by blast
  next
    case (Suc k)
    then show ?thesis using Cons.IH [OF t, of k] Cons.prems(2) s by auto
  qed
qed

lemma dim_arrays_length [simp]: "length (dim_arrays n smps) = length smps"
  by (induction n smps rule: dim_arrays.induct) auto

lemma dim_arrays_sample_at:
  "j < length smps \<Longrightarrow> i < length (dim_arrays n smps ! j) \<Longrightarrow>
     dim_arrays n smps ! j ! i = sample_at (smps ! j) i"
proof (induction n smps arbitrary: j rule: dim_arrays.induct)
  case (1 n)
  then show ?case by simp
next
  case (2 n v smps)
  then show ?case by (cases j) auto
next
  case (3 n vs smps)
  then show ?case by (cases j) auto
qed

lemma dim_arrays_nonuniform:
  "j < length smps \<Longrightarrow> smps ! j = NonUniform vs \<Longrightarrow> dim_arrays n smps ! j = vs"
proof (induction n smps arbitrary: j rule: dim_arrays.induct)
  case (1 n)
  then show ?case by simp
next
  case (2 n v smps)
  then show ?case by (cases j) auto
next
  case (3 n vs smps)
  then show ?case by (cases j) auto
qed



lemma concatenate_axis1_differ:
  assumes "a \<in> set arrays" and "b \<in> set arrays" and "length a \<noteq> length b"
  shows "concatenate_axis1 arrays =
     Inl (ValueError ''array dimensions except for the concatenation axis must match'')"
proof (cases arrays)
  case Nil
  then show ?thesis using assms by simp
next
  case (Cons x xs)
  have "\<not> list_all (\<lambda>b. length b = length x) xs"
  proof
    assume "list_all (\<lambda>b. length b = length x) xs"
    then have "\<forall>c\<in>set arrays. length c = length x"
      using Cons by (simp add: list_all_iff)
    then show False using assms by metis
  qed
  then show ?thesis using Cons by (simp add: concatenate_axis1_def)
qed

lemma concatenate_axis1_rows:
  assumes "concatenate_axis1 arrays = Inr time_array"
  shows "arrays \<noteq> [] \<and> (\<forall>a\<in>set arrays. length a = length time_array)
     \<and> (\<forall>row\<in>set time_array. length row = length arrays)
     \<and> (\<forall>i<length time_array. \<forall>j<length arrays. time_array ! i ! j = arrays ! j ! i)"
proof (cases arrays)
  case Nil
  then show ?thesis using assms by (simp add: concatenate_axis1_def)
next
  case (Cons x xs)
  then have all: "list_all (\<lambda>b. length b = length x) xs"
    and ta: "time_array = map (\<lambda>i. map (\<lambda>c. c ! i) arrays) [0..<length x]"
    using assms by (auto simp add: concatenate_axis1_def split: if_splits)
  have len: "length time_array = length x" using ta by simp
  have same: "\<forall>a\<in>set arrays. length a = length x"
    using all Cons by (simp add: list_all_iff)
  have rows: "\<forall>row\<in>set time_array. length row = length arrays"
    using ta by auto
  have entry: "time_array ! i ! j = arrays ! j ! i"
    if "i < length time_array" and "j < length arrays" for i j
    using that len by (simp add: ta)
  have ne: "arrays \<noteq> []" using Cons by simp
  show ?thesis using ne len same rows entry by simp
qed


lemma collect_time_dir_read_fields:
  assumes "read_fields files vars (start loc, end_line loc) = Inr (smps, se)"
  shows "collect_time_dir files vars loc =
     (case concatenate_axis1 (dim_arrays (data_shape loc) smps) of
        Inl e \<Rightarrow> Inl e
      | Inr time_array \<Rightarrow>
          Inr (time_array, \<lparr>data_shape = final_shape (data_shape loc) smps,
                            start = fst se, end_line = snd se\<rparr>))"
  using assms by (simp add: collect_time_dir_def collect_vars_read_fields)

lemma collect_time_dir_columns:
  assumes "collect_time_dir files vars loc = Inr (time_array, loc')"
  shows "\<exists>smps se. read_fields files vars (start loc, end_line loc) = Inr (smps, se)
     \<and> length smps = length vars
     \<and> (\<forall>row\<in>set time_array. length row = length vars)
     \<and> (\<forall>i<length time_array. \<forall>j<length vars. time_array ! i ! j = sample_at (smps ! j) i)"
proof (cases "read_fields files vars (start loc, end_line loc)")
  case (Inl e)
  then show ?thesis
    using assms by (simp add: collect_time_dir_def collect_vars_read_fields)
next
  case (Inr r)
  obtain smps se where r: "r = (smps, se)" by (cases r)
  have rf: "read_fields files vars (start loc, end_line loc) = Inr (smps, se)"
    using Inr r by simp
  have len: "length smps = length vars"
    using rf by (rule read_fields_length)
  let ?arrays = "dim_arrays (data_shape loc) smps"
  have cat: "concatenate_axis1 ?arrays = Inr time_array"
    using assms collect_time_dir_read_fields [OF rf] by (simp split: sum.splits)
  note rows = concatenate_axis1_rows [OF cat]
  have entry: "time_array ! i ! j = sample_at (smps ! j) i"
    if i: "i < length time_array" and j: "j < length vars" for i j
  proof -
    have "?arrays ! j \<in> set ?arrays" using j len by simp
    then have "length (?arrays ! j) = length time_array" using rows by blast
    then have "?arrays ! j ! i = sample_at (smps ! j) i"
      using i j len by (simp add: dim_arrays_sample_at)
    moreover have "time_array ! i ! j = ?arrays ! j ! i"
      using rows i j len by simp
    ultimately show ?thesis by simp
  qed
  have rl: "\<forall>row\<in>set time_array. length row = length vars"
    using rows len by simp
  show ?thesis using rf len rl entry by blast
qed

lemma collect_time_dirs_blocks:
  "collect_time_dirs tds vars loc = Inr blocks \<Longrightarrow>
     length blocks = length tds \<and>
     (\<forall>k<length tds. \<exists>l l'.
        collect_time_dir (dir_files (snd (tds ! k))) vars l = Inr (blocks ! k, l'))"
proof (induction tds arbitrary: loc blocks)
  case Nil
  then show ?case by simp
next
  case (Cons td tds)
  from Cons.prems obtain b l1 bs where
    h: "collect_time_dir (dir_files (snd td)) vars loc = Inr (b, l1)" and
    t: "collect_time_dirs tds vars l1 = Inr bs" and
    e: "blocks = b # bs"
    by (auto split: sum.splits prod.splits)
  note ih = Cons.IH [OF t]
  have "\<exists>l l'. collect_time_dir (dir_files (snd ((td # tds) ! k))) vars l = Inr (blocks ! k, l')"
    if "k < length (td # tds)" for k
  proof (cases k)
    case 0
    then show ?thesis using h e by auto
  next
    case (Suc m)
    then show ?thesis using ih that e by auto
  qed
  then show ?case using ih e by simp
qed



text \<open>
  C4. If the fields of one time step are all read and two of them are non-uniform with
  different numbers of values (5 and 6, say), the time step fails with the
  \<^verbatim>\<open>ValueError\<close> of \<^verbatim>\<open>np.concatenate\<close>, and so does the loop over the time
  directories when it reaches that directory: no array is truncated or padded.
\<close>

theorem inconsistent_field_length_raises:
  assumes "read_fields files vars (start loc, end_line loc) = Inr (smps, se)"
    and "i < length smps" and "j < length smps"
    and "smps ! i = NonUniform xs" and "smps ! j = NonUniform ys"
    and "length xs \<noteq> length ys"
  shows "collect_time_dir files vars loc =
       Inl (ValueError ''array dimensions except for the concatenation axis must match'')
     \<and> collect_time_dirs ((name, Directory files) # tds) vars loc =
       Inl (ValueError ''array dimensions except for the concatenation axis must match'')"
proof -
  let ?arrays = "dim_arrays (data_shape loc) smps"
  have "?arrays ! i = xs" and "?arrays ! j = ys"
    using assms by (simp_all add: dim_arrays_nonuniform)
  then have "xs \<in> set ?arrays" and "ys \<in> set ?arrays"
    using assms(2,3) by (metis dim_arrays_length nth_mem)+
  then have "concatenate_axis1 ?arrays =
      Inl (ValueError ''array dimensions except for the concatenation axis must match'')"
    using assms(6) by (rule concatenate_axis1_differ)
  then have "collect_time_dir files vars loc =
      Inl (ValueError ''array dimensions except for the concatenation axis must match'')"
    using collect_time_dir_read_fields [OF assms(1)] by simp
  then show ?thesis by simp
qed

theorem inconsistent_field_length_raises_witness:
  "collect_time_dir
     [(''T'', [''internalField'', ''('', ''1'', ''2'', ''3'', ''4'', ''5'', '')'']),
      (''p'', [''internalField'', ''('', ''1'', ''2'', ''3'', ''4'', ''5'', ''6'', '')''])]
     [''T'', ''p''] \<lparr>data_shape = 0, start = None, end_line = None\<rparr> =
       Inl (ValueError ''array dimensions except for the concatenation axis must match'')"
proof -
  let ?files = "[(''T'', [''internalField'', ''('', ''1'', ''2'', ''3'', ''4'', ''5'', '')'']),
      (''p'', [''internalField'', ''('', ''1'', ''2'', ''3'', ''4'', ''5'', ''6'', '')''])]"
  let ?loc = "\<lparr>data_shape = 0, start = None, end_line = None\<rparr>"
  have rf: "read_fields ?files [''T'', ''p''] (start ?loc, end_line ?loc) =
      Inr ([NonUniform [1, 2, 3, 4, 5], NonUniform [1, 2, 3, 4, 5, 6]], (Some 2, Some 8))"
    by code_simp
  show ?thesis
    using inconsistent_field_length_raises [OF rf, of 0 1 "[1, 2, 3, 4, 5]" "[1, 2, 3, 4, 5, 6]"]
    by simp
qed




text \<open>
  C7. The field order is \<^verbatim>\<open>['T', 'p']\<close> followed by the species names as the
  mechanism lists them, and every assembled dataset has its columns in that order: each
  row has one entry per field, the dataset is the blocks of the time directories one
  after the other, and in the block of a time directory column j holds the sample read
  from the file named by the j-th field. For species A, B, C the columns are T, p, A, B, C,
  whatever the order of the files in the directory.
\<close>

theorem columns_follow_sample_dims:
  assumes "collect_data species_names wd = Inr d"
  shows "sample_dims species_names = ''T'' # ''p'' # species_names
     \<and> (\<forall>row\<in>set d. length row = 2 + length species_names)
     \<and> (\<exists>tds blocks. time_dirs wd = Inr tds \<and> d = concat blocks
           \<and> length blocks = length tds
           \<and> (\<forall>k<length tds. \<exists>smps se0 se.
                 read_fields (dir_files (snd (tds ! k))) (sample_dims species_names) se0
                   = Inr (smps, se)
               \<and> (\<forall>j<length (sample_dims species_names). \<exists>lines se1 se2.
                     map_of (dir_files (snd (tds ! k))) (sample_dims species_names ! j)
                       = Some lines
                   \<and> read_field lines se1 = Inr (smps ! j, se2))
               \<and> (\<forall>i<length (blocks ! k). \<forall>j<length (sample_dims species_names).
                     blocks ! k ! i ! j = sample_at (smps ! j) i)))"
proof -
  let ?vars = "sample_dims species_names"
  let ?loc = "\<lparr>data_shape = 0, start = None, end_line = None\<rparr>"
  have sd: "?vars = ''T'' # ''p'' # species_names"
    by (simp add: sample_dims_def)
  have lv: "length ?vars = 2 + length species_names"
    by (simp add: sample_dims_def)
  from assms obtain tds blocks where
    td: "time_dirs wd = Inr tds" and
    cb: "collect_time_dirs tds ?vars ?loc = Inr blocks" and
    ca: "concatenate_axis0 blocks = Inr d"
    by (auto simp add: collect_data_def split: sum.splits)
  have d: "d = concat blocks"
    using ca by (simp add: concatenate_axis0_def split: if_splits)
  note bl = collect_time_dirs_blocks [OF cb]
  have per: "\<exists>smps se0 se.
        read_fields (dir_files (snd (tds ! k))) ?vars se0 = Inr (smps, se)
      \<and> (\<forall>j<length ?vars. \<exists>lines se1 se2.
            map_of (dir_files (snd (tds ! k))) (?vars ! j) = Some lines
          \<and> read_field lines se1 = Inr (smps ! j, se2))
      \<and> (\<forall>row\<in>set (blocks ! k). length row = length ?vars)
      \<and> (\<forall>i<length (blocks ! k). \<forall>j<length ?vars.
            blocks ! k ! i ! j = sample_at (smps ! j) i)"
    if k: "k < length tds" for k
  proof -
    from bl k obtain l l' where
      c: "collect_time_dir (dir_files (snd (tds ! k))) ?vars l = Inr (blocks ! k, l')"
      by blast
    from collect_time_dir_columns [OF c] obtain smps se where
      rf: "read_fields (dir_files (snd (tds ! k))) ?vars (start l, end_line l) = Inr (smps, se)" and
      rl: "\<forall>row\<in>set (blocks ! k). length row = length ?vars" and
      en: "\<forall>i<length (blocks ! k). \<forall>j<length ?vars. blocks ! k ! i ! j = sample_at (smps ! j) i"
      by blast
    have nth: "\<forall>j<length ?vars. \<exists>lines se1 se2.
            map_of (dir_files (snd (tds ! k))) (?vars ! j) = Some lines
          \<and> read_field lines se1 = Inr (smps ! j, se2)"
      using read_fields_nth [OF rf] by blast
    show ?thesis using rf nth rl en by blast
  qed
  have rows: "\<forall>row\<in>set d. length row = 2 + length species_names"
  proof
    fix row assume "row \<in> set d"
    then obtain b where b: "b \<in> set blocks" and r: "row \<in> set b"
      using d by auto
    then obtain k where k: "k < length blocks" and bk: "b = blocks ! k"
      by (metis in_set_conv_nth)
    then have "k < length tds" using bl by simp
    from per [OF this] have "\<forall>row\<in>set (blocks ! k). length row = length ?vars"
      by blast
    then show "length row = 2 + length species_names"
      using r bk lv by simp
  qed
  have "\<forall>k<length tds. \<exists>smps se0 se.
        read_fields (dir_files (snd (tds ! k))) ?vars se0 = Inr (smps, se)
      \<and> (\<forall>j<length ?vars. \<exists>lines se1 se2.
            map_of (dir_files (snd (tds ! k))) (?vars ! j) = Some lines
          \<and> read_field lines se1 = Inr (smps ! j, se2))
      \<and> (\<forall>i<length (blocks ! k). \<forall>j<length ?vars.
            blocks ! k ! i ! j = sample_at (smps ! j) i)"
    using per by blast
  then show ?thesis
    using sd rows td d bl by blast
qed

theorem columns_follow_sample_dims_witness:
  "collect_data [''A'', ''B'', ''C'']
     [(''0'', Directory []),
      (''1'', Directory
         [(''C'', [''internalField uniform 5;'']),
          (''B'', [''internalField uniform 4;'']),
          (''A'', [''internalField uniform 3;'']),
          (''p'', [''internalField uniform 7;'']),
          (''T'', [''internalField'', ''('', ''1'', ''2'', '')''])])]
     = Inr [[1, 7, 3, 4, 5], [2, 7, 3, 4, 5]]
   \<and> sample_dims [''A'', ''B'', ''C''] = [''T'', ''p'', ''A'', ''B'', ''C'']"
proof -
  let ?wd = "[(''0'', Directory []),
      (''1'', Directory
         [(''C'', [''internalField uniform 5;'']),
          (''B'', [''internalField uniform 4;'']),
          (''A'', [''internalField uniform 3;'']),
          (''p'', [''internalField uniform 7;'']),
          (''T'', [''internalField'', ''('', ''1'', ''2'', '')''])])]"
  have h: "collect_data [''A'', ''B'', ''C''] ?wd = Inr [[1, 7, 3, 4, 5], [2, 7, 3, 4, 5]]"
    by code_simp
  show ?thesis
    using columns_follow_sample_dims [OF h] h by simp
qed

section \<open>Properties of the sampler object\<close>

text \<open>
  C8. While \<^verbatim>\<open>data\<close> is \<^verbatim>\<open>None\<close>, as it is after construction and after a
  \<^verbatim>\<open>sample()\<close> that raised, \<^verbatim>\<open>get_data()\<close> and \<^verbatim>\<open>save()\<close> raise
  \<^verbatim>\<open>ValueError\<close> and nothing is returned or persisted; after a \<^verbatim>\<open>sample()\<close>
  that returned, \<^verbatim>\<open>get_data()\<close> returns the assembled array and \<^verbatim>\<open>save()\<close>
  persists it.
\<close>

theorem results_need_sample:
  "(sampler_data s = None \<longrightarrow>
        get_data s = Inl (ValueError ''Data not sampled yet. Call sample() first.'')
      \<and> save s output_dir store = Inl (ValueError ''No data to save. Run `sample()` first.''))
   \<and> sampler_data (init_sampler f) = None
   \<and> (sample s run_case_setup = (s', Some e) \<longrightarrow> s' = s)
   \<and> (sample s run_case_setup = (s', None) \<longrightarrow>
        (\<exists>species_names wd d. run_case_setup = Inr (species_names, wd)
           \<and> collect_data species_names wd = Inr d
           \<and> get_data s' = Inr d
           \<and> (\<exists>store'. save s' output_dir store = Inr store')))"
  by (auto simp add: get_data_def save_def init_sampler_def sample_def
      split: sum.splits prod.splits option.splits)

theorem results_need_sample_witness:
  "get_data (init_sampler ''H2'')
      = Inl (ValueError ''Data not sampled yet. Call sample() first.'')
   \<and> save (init_sampler ''H2'') ''out'' Map.empty
      = Inl (ValueError ''No data to save. Run `sample()` first.'')
   \<and> get_data (fst (sample (init_sampler ''H2'')
        (Inr ([], [(''0'', Directory []),
                   (''1'', Directory [(''T'', [''internalField'', ''('', ''1'', ''2'', '')'']),
                                     (''p'', [''internalField uniform 7;''])])]))))
      = Inr [[1, 7], [2, 7]]"
proof -
  let ?r = "Inr ([], [(''0'', Directory []),
                   (''1'', Directory [(''T'', [''internalField'', ''('', ''1'', ''2'', '')'']),
                                     (''p'', [''internalField uniform 7;''])])])"
  let ?s' = "\<lparr>fuel = ''H2'', sampler_data = Some [[1, 7], [2, 7]]\<rparr>"
  have n: "sampler_data (init_sampler ''H2'') = None"
    by (simp add: init_sampler_def)
  have h: "sample (init_sampler ''H2'') ?r = (?s', None)"
    by code_simp
  show ?thesis
    using results_need_sample [where s = "init_sampler ''H2''" and output_dir = "''out''"
        and store = Map.empty and run_case_setup = ?r and s' = ?s'] n h
    by (auto simp add: get_data_def)
qed

section \<open>Properties of the field-file scan\<close>

text \<open>
  Lines before the marker line leave the scan as it started; lines after it that hold
  neither a uniform marker nor a closing delimiter only move \<^verbatim>\<open>start\<close>.
\<close>

lemma scan_lines_before:
  "\<forall>l\<in>set before. \<not> str_contains ''internalField'' l \<Longrightarrow>
     scan_lines i (before @ rest) False st en = scan_lines (i + length before) rest False st en"
  by (induction before arbitrary: i) (simp_all add: Let_def)

lemma scan_lines_skip:
  assumes "\<forall>l\<in>set mid. \<not> str_contains '' uniform'' l \<and> \<not> str_contains '')'' l"
  shows "\<exists>st'. scan_lines i (mid @ rest) started st en =
     scan_lines (i + length mid) rest
       (started \<or> (\<exists>l\<in>set mid. str_contains ''internalField'' l)) st' en"
  using assms
proof (induction mid arbitrary: i started st)
  case Nil
  have "scan_lines i rest started st en = scan_lines i rest started st en" ..
  then show ?case by auto
next
  case (Cons l mid)
  let ?started = "started \<or> str_contains ''internalField'' l"
  let ?st = "if str_contains ''('' l \<and> ?started then Some (i + 1) else st"
  have step: "scan_lines i ((l # mid) @ rest) started st en =
      scan_lines (i + 1) (mid @ rest) ?started ?st en"
    using Cons.prems by (simp add: Let_def)
  from Cons.prems have "\<forall>l\<in>set mid. \<not> str_contains '' uniform'' l \<and> \<not> str_contains '')'' l"
    by simp
  from Cons.IH [OF this, of "i + 1" ?started ?st]
  obtain st' where "scan_lines (i + 1) (mid @ rest) ?started ?st en =
      scan_lines (i + 1 + length mid) rest
        (?started \<or> (\<exists>l\<in>set mid. str_contains ''internalField'' l)) st' en"
    by blast
  then have "scan_lines i ((l # mid) @ rest) started st en =
      scan_lines (i + length (l # mid)) rest
        (started \<or> (\<exists>x\<in>set (l # mid). str_contains ''internalField'' x)) st' en"
    using step by (simp add: disj_assoc)
  then show ?case by blast
qed

text \<open>
  C5. When the scan reaches a line with the uniform marker at or after the line with
  the internal-values marker, it takes the last whitespace-separated token of that line,
  drops the last character of the token, whatever it is, and parses the rest as the
  scalar: a token made of a numeric literal and one more character gives the value of
  the literal, the field is uniform with that value, and the lines after it are not
  read.
\<close>

theorem uniform_value_drops_last_character:
  assumes toks: "str_split (str_strip line) = toks @ [tok @ [c]]"
    and val: "py_float tok = Inr v"
    and uni: "str_contains '' uniform'' line"
    and before: "\<forall>l\<in>set before. \<not> str_contains ''internalField'' l"
    and marker: "str_contains ''internalField'' (hd (mid @ [line]))"
    and mid: "\<forall>l\<in>set mid. \<not> str_contains '' uniform'' l \<and> \<not> str_contains '')'' l"
  shows "uniform_value_of line = Inr v
     \<and> (\<exists>se'. read_field (before @ mid @ line # rest) se = Inr (Uniform v, se'))
     \<and> (\<exists>loc'. parse_field (before @ mid @ line # rest) loc
            = Inr (replicate (data_shape loc) v, loc'))"
proof -
  have uv: "uniform_value_of line = Inr v"
    using toks val by (cases toks) (simp_all add: uniform_value_of_def)
  have started: "(\<exists>l\<in>set mid. str_contains ''internalField'' l)
      \<or> str_contains ''internalField'' line"
    using marker by (cases mid) auto
  have scan: "\<exists>st'. scan_lines 0 (before @ mid @ line # rest) False st en
      = Inr (Some v, st', en)" for st en
  proof -
    have a: "scan_lines 0 (before @ mid @ line # rest) False st en =
        scan_lines (length before) (mid @ line # rest) False st en"
      using scan_lines_before [OF before, of 0 "mid @ line # rest" st en] by simp
    obtain st' where b: "scan_lines (length before) (mid @ line # rest) False st en =
        scan_lines (length before + length mid) (line # rest)
          (False \<or> (\<exists>l\<in>set mid. str_contains ''internalField'' l)) st' en"
      using scan_lines_skip [OF mid] by blast
    have c: "scan_lines (length before + length mid) (line # rest)
          (False \<or> (\<exists>l\<in>set mid. str_contains ''internalField'' l)) st' en
        = Inr (Some v, st', en)"
      using started uni uv by (simp add: Let_def)
    show ?thesis using a b c by simp
  qed
  have rf: "\<exists>se'. read_field (before @ mid @ line # rest) se = Inr (Uniform v, se')" for se
  proof -
    obtain st' where "scan_lines 0 (before @ mid @ line # rest) False (fst se) (snd se)
        = Inr (Some v, st', snd se)"
      using scan by blast
    then show ?thesis by (simp add: read_field_def)
  qed
  have pf: "\<exists>loc'. parse_field (before @ mid @ line # rest) loc
      = Inr (replicate (data_shape loc) v, loc')"
  proof -
    obtain se' where "read_field (before @ mid @ line # rest) (start loc, end_line loc)
        = Inr (Uniform v, se')"
      using rf by blast
    then show ?thesis by (cases se') (simp add: parse_field_def)
  qed
  show ?thesis using uv rf pf by blast
qed

theorem uniform_value_drops_last_character_witness:
  "uniform_value_of ''internalField   uniform 101325;'' = Inr 101325
   \<and> (\<exists>se'. read_field [''FoamFile'', ''internalField   uniform 101325;'', ''boundaryField'']
          (None, None) = Inr (Uniform 101325, se'))"
proof -
  have toks: "str_split (str_strip ''internalField   uniform 101325;'')
      = [''internalField'', ''uniform''] @ [''101325'' @ [CHR '';'']]"
    by code_simp
  have val: "py_float ''101325'' = Inr 101325"
    by code_simp
  have uni: "str_contains '' uniform'' ''internalField   uniform 101325;''"
    by code_simp
  have before: "\<forall>l\<in>set [''FoamFile'']. \<not> str_contains ''internalField'' l"
    by code_simp
  have marker: "str_contains ''internalField'' (hd ([] @ [''internalField   uniform 101325;'']))"
    by code_simp
  have mid: "\<forall>l\<in>set ([] :: string list). \<not> str_contains '' uniform'' l \<and> \<not> str_contains '')'' l"
    by simp
  show ?thesis
    using uniform_value_drops_last_character [OF toks val uni before marker mid,
        of "[''boundaryField'']" "(None, None)"]
    by simp
qed

section \<open>Properties of the directory scan\<close>

text \<open>
  A name that \<^verbatim>\<open>is_numeric_string\<close> accepts holds no whitespace apart from a final
  newline, so \<^verbatim>\<open>float\<close> parses it and the sort key never raises. The directories
  processed are the numerically named ones in ascending order of their values, without
  the first.
\<close>

lemma is_digit_not_space: "is_digit c \<Longrightarrow> \<not> is_space c"
  by (auto simp add: is_digit_def is_space_def Let_def)

lemma split_sign_nospace:
  assumes "split_sign s = (neg, r)" and "\<forall>c\<in>set r. \<not> is_space c"
  shows "\<forall>c\<in>set s. \<not> is_space c"
proof (cases s)
  case Nil
  then show ?thesis by simp
next
  case (Cons a t)
  have sp: "\<not> is_space CHR ''-''" "\<not> is_space CHR ''+''"
    by (simp_all add: is_space_def)
  show ?thesis
    using assms Cons sp by (auto simp add: split_sign_def split: if_splits)
qed

lemma lex_exponent_nospace:
  assumes "lex_exponent x = Some e"
  shows "\<forall>c\<in>set x. \<not> is_space c"
proof (cases x)
  case Nil
  then show ?thesis by simp
next
  case (Cons a r)
  have sp: "\<not> is_space CHR ''e''" "\<not> is_space CHR ''E''"
    by (simp_all add: is_space_def)
  obtain neg ds where ss: "split_sign r = (neg, ds)" by (cases "split_sign r")
  have a: "a = CHR ''e'' \<or> a = CHR ''E''" and ds: "list_all is_digit ds"
    using assms Cons ss by (auto simp add: lex_exponent_def split: if_splits)
  have "\<forall>c\<in>set ds. \<not> is_space c"
    using ds by (simp add: list_all_iff is_digit_not_space)
  then have "\<forall>c\<in>set r. \<not> is_space c"
    using ss by (rule split_sign_nospace [rotated])
  then show ?thesis using a sp Cons by auto
qed

lemma lex_decimal_nospace:
  assumes "lex_decimal w = Some d"
  shows "w \<noteq> [] \<and> (\<forall>c\<in>set w. \<not> is_space c)"
proof -
  obtain neg s1 where ss: "split_sign w = (neg, s1)" by (cases "split_sign w")
  define ip where "ip = takeWhile is_digit s1"
  define r1 where "r1 = dropWhile is_digit s1"
  have ld: "lex_decimal w =
      (case r1 of
         [] \<Rightarrow> if ip = [] then None else Some (neg, ip, [], 0)
       | c # r \<Rightarrow>
           if c = CHR ''.'' then
             (let fp = takeWhile is_digit r; r2 = dropWhile is_digit r
              in if ip = [] \<and> fp = [] then None
                 else map_option (\<lambda>e. (neg, ip, fp, e)) (lex_exponent r2))
           else if ip = [] then None
           else map_option (\<lambda>e. (neg, ip, [], e)) (lex_exponent r1))"
    unfolding lex_decimal_def ss ip_def r1_def Let_def prod.case by (rule refl)
  have ip: "\<forall>c\<in>set ip. \<not> is_space c"
    unfolding ip_def by (auto dest: set_takeWhileD simp add: is_digit_not_space)
  have s1: "s1 = ip @ r1" by (simp add: ip_def r1_def)
  have dot: "\<not> is_space CHR ''.''" by (simp add: is_space_def)
  have r1: "(\<forall>c\<in>set r1. \<not> is_space c) \<and> s1 \<noteq> []"
  proof (cases r1)
    case Nil
    then have "ip \<noteq> []"
      using assms ld by (auto split: if_splits)
    then show ?thesis using Nil s1 by simp
  next
    case (Cons a r)
    then have ne: "s1 \<noteq> []" using s1 by simp
    show ?thesis
    proof (cases "a = CHR ''.''")
      case True
      let ?fp = "takeWhile is_digit r"
      let ?r2 = "dropWhile is_digit r"
      have fp: "\<forall>c\<in>set ?fp. \<not> is_space c"
        by (auto dest: set_takeWhileD simp add: is_digit_not_space)
      obtain e where "lex_exponent ?r2 = Some e"
        using assms ld Cons True by (auto simp add: Let_def split: if_splits)
      then have "\<forall>c\<in>set ?r2. \<not> is_space c"
        by (rule lex_exponent_nospace)
      moreover have "r = ?fp @ ?r2" by simp
      ultimately have "\<forall>c\<in>set r. \<not> is_space c"
        using fp by (metis Un_iff set_append)
      then show ?thesis using Cons True dot ne by simp
    next
      case False
      obtain e where "lex_exponent r1 = Some e"
        using assms ld Cons False by (auto split: if_splits)
      then have "\<forall>c\<in>set r1. \<not> is_space c"
        by (rule lex_exponent_nospace)
      then show ?thesis using ne by simp
    qed
  qed
  then have "\<forall>c\<in>set s1. \<not> is_space c"
    using ip s1 by (metis Un_iff set_append)
  then have all: "\<forall>c\<in>set w. \<not> is_space c"
    using ss by (rule split_sign_nospace [rotated])
  have "w \<noteq> []"
    using r1 ss by (auto simp add: split_sign_def)
  then show ?thesis using all by simp
qed

lemma str_strip_nospace:
  assumes "w \<noteq> []" and "\<forall>c\<in>set w. \<not> is_space c"
  shows "str_strip w = w" and "str_strip (w @ [CHR 0x0A]) = w"
proof -
  have h: "\<not> is_space (hd w)" and l: "\<not> is_space (last w)"
    using assms by simp_all
  have nl: "is_space CHR 0x0A" by (simp add: is_space_def)
  have d1: "dropWhile is_space w = w"
    using assms(1) h by (cases w) simp_all
  have d2: "dropWhile is_space (rev w) = rev w"
    using assms(1) l by (cases "rev w") (simp_all add: last_rev [symmetric] hd_rev)
  show "str_strip w = w"
    by (simp add: str_strip_def d1 d2)
  have d3: "dropWhile is_space (w @ [CHR 0x0A]) = w @ [CHR 0x0A]"
    using assms(1) h by (cases w) simp_all
  show "str_strip (w @ [CHR 0x0A]) = w"
    by (simp add: str_strip_def d3 nl d2)
qed

lemma is_numeric_string_py_float:
  assumes "is_numeric_string s"
  shows "\<exists>r. py_float s = Inr r"
proof -
  let ?w = "chop_newline s"
  obtain d where d: "lex_decimal ?w = Some d"
    using assms by (auto simp add: is_numeric_string_def)
  note ns = lex_decimal_nospace [OF d]
  have "str_strip s = ?w"
  proof (cases "s \<noteq> [] \<and> last s = CHR 0x0A")
    case True
    then have "s = ?w @ [CHR 0x0A]"
      by (simp add: chop_newline_def) (metis append_butlast_last_id)
    then show ?thesis using str_strip_nospace(2) ns by metis
  next
    case False
    then have "?w = s" by (auto simp add: chop_newline_def)
    then show ?thesis using str_strip_nospace(1) ns by metis
  qed
  then show ?thesis using d by (simp add: py_float_def)
qed

lemma time_dirs_sorted:
  "time_dirs wd = Inr (tl (sort_key float_key (numeric_dirs wd)))
   \<and> sorted (map float_key (tl (sort_key float_key (numeric_dirs wd))))"
proof -
  have "filter (\<lambda>d. isl (py_float (fst d))) (numeric_dirs wd) = []"
  proof -
    have "\<not> isl (py_float (fst d))" if "d \<in> set (numeric_dirs wd)" for d
    proof -
      have "is_numeric_string (fst d)"
        using that by (simp add: numeric_dirs_def)
      then show ?thesis using is_numeric_string_py_float by fastforce
    qed
    then show ?thesis by (simp add: filter_empty_conv)
  qed
  then have a: "time_dirs wd = Inr (tl (sort_key float_key (numeric_dirs wd)))"
    by (simp add: time_dirs_def Let_def)
  have "sorted (tl (map float_key (sort_key float_key (numeric_dirs wd))))"
    by (rule sorted_tl) simp
  then have b: "sorted (map float_key (tl (sort_key float_key (numeric_dirs wd))))"
    by (simp add: map_tl)
  show ?thesis using a b by simp
qed

text \<open>
  The example of the specification: of the entries 10, constant, 0, 2, a regular file 3
  and system, the directories 2 and 10 are processed, in this order.
\<close>

lemma time_dirs_example:
  "time_dirs [(''10'', Directory []), (''constant'', Directory []), (''0'', Directory []),
      (''2'', Directory []), (''3'', RegularFile), (''system'', Directory [])]
     = Inr [(''2'', Directory []), (''10'', Directory [])]"
  by code_simp

text \<open>
  C2. The scan keeps the directories with numeric names in ascending numeric order and
  drops the first of them, which the source comments as skipping time 0. The entry
  dropped is the zero-time entry only if that entry sorts first: with a directory named
  -1 the zero-time entry is kept and processed, and without a zero-time directory the
  first sampled time is dropped.
\<close>

theorem time_dirs_keeps_zero_entry:
  "time_dirs [(''-1'', Directory []), (''0'', Directory []), (''2'', Directory [])]
     = Inr [(''0'', Directory []), (''2'', Directory [])]
   \<and> time_dirs [(''2'', Directory []), (''10'', Directory [])]
     = Inr [(''10'', Directory [])]"
  by code_simp

end
